theory Spec2Isabelle
  imports Complex_Main
begin

section \<open>Data model\<close>

text \<open>
  The two programs (\<^verbatim>\<open>EDA.py\<close>, the one-shot script, and \<^verbatim>\<open>App.py\<close>, the dashboard)
  transform one pandas data frame. A cell is a missing marker (NaN, None, NaT), a string
  or a number. Numbers are exact rationals here: the quantile edges of the examples are
  dyadic, hence the same in binary floating point. A row lists its fields with their
  names, in column order; a frame keeps its column names beside its rows, since a frame
  without rows still has columns.
\<close>

datatype cell = Missing | Str string | Num rat

type_synonym row = "(string \<times> cell) list"

record dataframe =
  columns :: "string list"
  rows :: "row list"

datatype error = KeyError string | ValueError

text \<open>
  The per-value conversions belong to pandas, not to this repository. The model takes
  them as parameters: the year of the timestamp that \<^verbatim>\<open>pd.to_datetime\<close> reads from a
  string or from a number (\<open>None\<close> where \<^verbatim>\<open>errors='coerce'\<close> yields NaT), the number
  that \<^verbatim>\<open>pd.to_numeric\<close> reads from a string (\<open>None\<close> where it yields NaN), and the
  text that \<^verbatim>\<open>astype(str)\<close> prints for a number.
\<close>

record pandas =
  year_of_str :: "string \<Rightarrow> int option"
  year_of_num :: "rat \<Rightarrow> int option"
  num_of_str :: "string \<Rightarrow> rat option"
  str_of_num :: "rat \<Rightarrow> string"

text \<open>\<^verbatim>\<open>row[c]\<close> for a column the row has.\<close>

definition field :: "row \<Rightarrow> string \<Rightarrow> cell" where
  "field r c = (case map_of r c of None \<Rightarrow> Missing | Some v \<Rightarrow> v)"

definition well_formed :: "dataframe \<Rightarrow> bool" where
  "well_formed df = (distinct (columns df) \<and> list_all (\<lambda>r. map fst r = columns df) (rows df))"

text \<open>Every row has exactly the frame's columns and a non-missing value in each.\<close>

definition no_missing :: "dataframe \<Rightarrow> bool" where
  "no_missing df =
     list_all (\<lambda>r. map fst r = columns df \<and> list_all (\<lambda>c. field r c \<noteq> Missing) (columns df))
       (rows df)"

definition and_then :: "error + 'a \<Rightarrow> ('a \<Rightarrow> error + 'b) \<Rightarrow> error + 'b" where
  "and_then m f = (case m of Inl e \<Rightarrow> Inl e | Inr x \<Rightarrow> f x)"

section \<open>Column operations\<close>

definition set_field :: "string \<Rightarrow> cell \<Rightarrow> row \<Rightarrow> row" where
  "set_field c v r = map (\<lambda>(n, w). if n = c then (n, v) else (n, w)) r"

definition get_col :: "string \<Rightarrow> dataframe \<Rightarrow> cell list" where
  "get_col c df = map (\<lambda>r. field r c) (rows df)"

definition map_col :: "string \<Rightarrow> (cell \<Rightarrow> cell) \<Rightarrow> dataframe \<Rightarrow> dataframe" where
  "map_col c f df =
     df\<lparr>rows := map (map (\<lambda>(n, w). if n = c then (n, f w) else (n, w))) (rows df)\<rparr>"

text \<open>\<^verbatim>\<open>df[c] = f(df[c])\<close>: reading an absent column raises KeyError.\<close>

definition coerce_col :: "string \<Rightarrow> (cell \<Rightarrow> cell) \<Rightarrow> dataframe \<Rightarrow> error + dataframe" where
  "coerce_col c f df =
     (if c \<in> set (columns df) then Inr (map_col c f df) else Inl (KeyError c))"

text \<open>\<^verbatim>\<open>df[c] = series\<close>: an existing column is overwritten in place, a new one is appended.\<close>

definition assign_col :: "string \<Rightarrow> (row \<Rightarrow> cell) \<Rightarrow> dataframe \<Rightarrow> dataframe" where
  "assign_col c g df =
     (if c \<in> set (columns df) then df\<lparr>rows := map (\<lambda>r. set_field c (g r) r) (rows df)\<rparr>
      else \<lparr>columns = columns df @ [c], rows = map (\<lambda>r. r @ [(c, g r)]) (rows df)\<rparr>)"

text \<open>\<^verbatim>\<open>df.drop(cols, axis=1, errors='ignore')\<close>\<close>

definition drop_columns :: "string list \<Rightarrow> dataframe \<Rightarrow> dataframe" where
  "drop_columns cs df =
     \<lparr>columns = filter (\<lambda>c. c \<notin> set cs) (columns df),
      rows = map (filter (\<lambda>(n, w). n \<notin> set cs)) (rows df)\<rparr>"

section \<open>Per-value coercion\<close>

text \<open>\<^verbatim>\<open>pd.to_datetime(x, errors='coerce')\<close> followed by \<^verbatim>\<open>.dt.year\<close>\<close>

definition dt_year :: "pandas \<Rightarrow> cell \<Rightarrow> cell" where
  "dt_year L c =
     (case c of
        Missing \<Rightarrow> Missing
      | Str s \<Rightarrow> (case year_of_str L s of None \<Rightarrow> Missing | Some y \<Rightarrow> Num (of_int y))
      | Num x \<Rightarrow> (case year_of_num L x of None \<Rightarrow> Missing | Some y \<Rightarrow> Num (of_int y)))"

text \<open>\<^verbatim>\<open>pd.to_numeric(x, errors='coerce')\<close>\<close>

definition to_numeric :: "pandas \<Rightarrow> cell \<Rightarrow> cell" where
  "to_numeric L c =
     (case c of
        Missing \<Rightarrow> Missing
      | Str s \<Rightarrow> (case num_of_str L s of None \<Rightarrow> Missing | Some x \<Rightarrow> Num x)
      | Num x \<Rightarrow> Num x)"

text \<open>\<^verbatim>\<open>astype(str)\<close>: a missing value prints as the text \<^verbatim>\<open>nan\<close>.\<close>

definition astype_str :: "pandas \<Rightarrow> cell \<Rightarrow> string" where
  "astype_str L c = (case c of Missing \<Rightarrow> ''nan'' | Str s \<Rightarrow> s | Num x \<Rightarrow> str_of_num L x)"

section \<open>Quantile categorization\<close>

fun num_values :: "cell list \<Rightarrow> rat list" where
  "num_values [] = []"
| "num_values (Num x # cs) = x # num_values cs"
| "num_values (c # cs) = num_values cs"

text \<open>
  \<^verbatim>\<open>Series.quantile(q)\<close> with the default linear interpolation, on a series that has
  at least one value: position \<open>(n - 1) * q\<close> in the sorted values.
\<close>

definition quantile :: "rat list \<Rightarrow> rat \<Rightarrow> rat" where
  "quantile vs q =
     (let s = sort vs;
          h = of_nat (length s - 1) * q;
          i = nat \<lfloor>h\<rfloor>;
          g = h - of_int \<lfloor>h\<rfloor>
      in s ! i + g * (s ! (min (i + 1) (length s - 1)) - s ! i))"

text \<open>\<^verbatim>\<open>Series.unique()\<close> and \<^verbatim>\<open>drop_duplicates()\<close> keep the first occurrence, in order.\<close>

fun unique :: "'a list \<Rightarrow> 'a list" where
  "unique [] = []"
| "unique (x # xs) = x # unique (filter (\<lambda>y. y \<noteq> x) xs)"

text \<open>
  \<^verbatim>\<open>sorted(valid.quantile([0, 0.25, 0.5, 0.75, 1.0]).unique())\<close>. Every quantile of an
  empty series is NaN, so the edges are then the single NaN, written \<open>None\<close>.
\<close>

definition quantile_edges :: "rat list \<Rightarrow> rat option list" where
  "quantile_edges valid =
     (if valid = [] then [None]
      else map Some (sort (unique (map (quantile valid) [0, 1 / 4, 1 / 2, 3 / 4, 1]))))"

fun finite_edges :: "rat option list \<Rightarrow> rat list" where
  "finite_edges [] = []"
| "finite_edges (Some e # es) = e # finite_edges es"
| "finite_edges (None # es) = finite_edges es"

text \<open>\<^verbatim>\<open>bins.searchsorted(x, side='left')\<close> on increasing bins: how many edges lie below x.\<close>

definition searchsorted :: "rat list \<Rightarrow> rat \<Rightarrow> nat" where
  "searchsorted bins x = length (takeWhile (\<lambda>e. e < x) bins)"

text \<open>
  \<^verbatim>\<open>pd.cut(x, bins, labels, include_lowest=True)\<close> for one value: intervals are closed
  on the right, the lowest edge itself falls into the first one, and a value that is
  missing or lies outside all intervals gets no category.
\<close>

definition pd_cut :: "rat list \<Rightarrow> string list \<Rightarrow> cell \<Rightarrow> cell" where
  "pd_cut bins labs c =
     (case c of
        Num x \<Rightarrow>
          (let ids = (if (case bins of [] \<Rightarrow> False | b # _ \<Rightarrow> x = b) then 1
                      else searchsorted bins x)
           in if ids = 0 \<or> ids = length bins then Missing else Str (labs ! (ids - 1)))
      | _ \<Rightarrow> Missing)"

text \<open>
  \<^verbatim>\<open>categorize_col(df, col, labels)\<close>. \<^verbatim>\<open>pd.cut\<close> raises ValueError when the labels
  are not one fewer than the edges, or repeat.
\<close>

definition categorize_col ::
  "pandas \<Rightarrow> dataframe \<Rightarrow> string \<Rightarrow> string list \<Rightarrow> error + dataframe" where
  "categorize_col L df col labs =
     (if col \<notin> set (columns df) then Inl (KeyError col)
      else
        let df1 = map_col col (to_numeric L) df;
            valid = num_values (get_col col df1);
            edges = quantile_edges valid
        in if length (remdups edges) < 2 then Inr df1
           else
             let bins = finite_edges edges;
                 labs1 = take (length edges - 1) labs
             in if length labs1 \<noteq> length bins - 1 \<or> \<not> distinct labs1 then Inl ValueError
                else Inr (assign_col (col @ ''_Category'')
                            (\<lambda>r. pd_cut bins labs1 (field r col)) df1))"

section \<open>Row elimination and genre explosion\<close>

definition dropna :: "dataframe \<Rightarrow> dataframe" where
  "dropna df = df\<lparr>rows := filter (\<lambda>r. Missing \<notin> snd ` set r) (rows df)\<rparr>"

definition drop_duplicates :: "dataframe \<Rightarrow> dataframe" where
  "drop_duplicates df = df\<lparr>rows := unique (rows df)\<rparr>"

text \<open>Python's \<^verbatim>\<open>s.split(', ')\<close>: the tokens between the occurrences of the delimiter.\<close>

fun split_genre :: "string \<Rightarrow> string list" where
  "split_genre [] = [[]]"
| "split_genre [c] = [[c]]"
| "split_genre (c # d # cs) =
     (if c = CHR '','' \<and> d = CHR '' '' then [] # split_genre cs
      else (case split_genre (d # cs) of [] \<Rightarrow> [[c]] | t # ts \<Rightarrow> (c # t) # ts))"

definition genre_tokens :: "pandas \<Rightarrow> row \<Rightarrow> string list" where
  "genre_tokens L r = split_genre (astype_str L (field r ''Genre''))"

text \<open>\<^verbatim>\<open>explode\<close>: one row per token, every other field copied.\<close>

definition explode_row :: "pandas \<Rightarrow> row \<Rightarrow> row list" where
  "explode_row L r = map (\<lambda>t. set_field ''Genre'' (Str t) r) (genre_tokens L r)"

text \<open>The fields of a row other than Genre.\<close>

definition other_fields :: "row \<Rightarrow> row" where
  "other_fields r = filter (\<lambda>(n, w). n \<noteq> ''Genre'') r"

definition explode_genre :: "pandas \<Rightarrow> dataframe \<Rightarrow> dataframe" where
  "explode_genre L df =
     (if ''Genre'' \<in> set (columns df) then df\<lparr>rows := concat (map (explode_row L) (rows df))\<rparr>
      else df)"

section \<open>The script's cleaning pipeline (EDA.py)\<close>

definition cols :: "string list" where
  "cols = [''Overview'', ''Original_Language'', ''Poster_Url'']"

definition labels :: "string list" where
  "labels = [''not_popular'', ''below_avg'', ''average'', ''popular'']"

definition date_normalization :: "pandas \<Rightarrow> dataframe \<Rightarrow> error + dataframe" where
  "date_normalization L df = coerce_col ''Release_Date'' (dt_year L) df"

definition numeric_coercion :: "pandas \<Rightarrow> dataframe \<Rightarrow> error + dataframe" where
  "numeric_coercion L df =
     and_then (coerce_col ''Vote_Average'' (to_numeric L) df) (\<lambda>df.
     and_then (coerce_col ''Vote_Count'' (to_numeric L) df) (\<lambda>df.
     coerce_col ''Popularity'' (to_numeric L) df))"

text \<open>
  Lines 75 to 77. \<^verbatim>\<open>reset_index\<close> renumbers the index and \<^verbatim>\<open>astype('category')\<close>
  changes the storage type of Genre; neither changes a cell, and the model has neither an
  index nor storage types.
\<close>

definition row_elimination :: "dataframe \<Rightarrow> dataframe" where
  "row_elimination df = drop_duplicates (dropna df)"

text \<open>
  The table as it enters row elimination (lines 30 to 70 of the script): dates, pruning,
  numeric coercion, categorization, in the script's order.
\<close>

definition prepare :: "pandas \<Rightarrow> dataframe \<Rightarrow> error + dataframe" where
  "prepare L df =
     and_then (date_normalization L df) (\<lambda>df.
     and_then (numeric_coercion L (drop_columns cols df)) (\<lambda>df.
     categorize_col L df ''Vote_Average'' labels))"

definition eda_pipeline :: "pandas \<Rightarrow> dataframe \<Rightarrow> error + dataframe" where
  "eda_pipeline L df =
     and_then (prepare L df) (\<lambda>df. Inr (explode_genre L (row_elimination df)))"


section \<open>The dashboard's loader (App.py)\<close>

definition load_data :: "pandas \<Rightarrow> dataframe \<Rightarrow> error + dataframe" where
  "load_data L df =
     and_then (coerce_col ''Release_Date'' (dt_year L) df) (\<lambda>df.
     and_then (coerce_col ''Vote_Count'' (to_numeric L) df) (\<lambda>df.
     and_then (coerce_col ''Popularity'' (to_numeric L) df) (\<lambda>df.
     Inr (explode_genre L df))))"

section \<open>Notions used in the statements\<close>

text \<open>Python's \<^verbatim>\<open>', '.join(tokens)\<close>, the inverse of the split.\<close>

fun join_genre :: "string list \<Rightarrow> string" where
  "join_genre [] = []"
| "join_genre [t] = t"
| "join_genre (t # u # ts) = t @ '', '' @ join_genre (u # ts)"

text \<open>The text contains the delimiter \<^verbatim>\<open>', '\<close> somewhere.\<close>

fun has_delimiter :: "string \<Rightarrow> bool" where
  "has_delimiter (c # d # cs) = ((c = CHR '','' \<and> d = CHR '' '') \<or> has_delimiter (d # cs))"
| "has_delimiter cs = False"

text \<open>
  The text \<open>s\<close> consists of the tokens \<open>ts\<close> separated by the delimiter: there is at
  least one token, no token contains the delimiter, and joining them gives \<open>s\<close>.
\<close>

definition tokens_of :: "string \<Rightarrow> string list \<Rightarrow> bool" where
  "tokens_of s ts = (ts \<noteq> [] \<and> list_all (\<lambda>t. \<not> has_delimiter t) ts \<and> join_genre ts = s)"

text \<open>What the explosion emits for a row: one copy per token, differing in Genre only.\<close>

definition copies_of :: "pandas \<Rightarrow> row \<Rightarrow> row list \<Rightarrow> bool" where
  "copies_of L r xs =
     list_all2 (\<lambda>x t. map fst x = map fst r \<and> other_fields x = other_fields r \<and>
                  field x ''Genre'' = Str t)
       xs (genre_tokens L r)"

text \<open>A column is numeric when each of its cells is a number or missing.\<close>

definition numeric_col :: "dataframe \<Rightarrow> string \<Rightarrow> bool" where
  "numeric_col df col =
     list_all (list_all (\<lambda>(n, w). n \<noteq> col \<or> (case w of Str s \<Rightarrow> False | _ \<Rightarrow> True))) (rows df)"

text \<open>
  What the dashboard's loader makes of a row before the genres are exploded: the date read
  as a year, Vote_Count and Popularity read as numbers, every other field as it was.
\<close>

definition loaded_row :: "pandas \<Rightarrow> row \<Rightarrow> row" where
  "loaded_row L r =
     map (\<lambda>(n, w). (n, if n = ''Release_Date'' then dt_year L w
                        else if n = ''Vote_Count'' \<or> n = ''Popularity'' then to_numeric L w
                        else w)) r"

section \<open>A sample instance of the conversions, for the examples\<close>

text \<open>
  The general theorems hold for every choice of the conversions. The examples need a
  concrete one. This instance accepts a part of what pandas accepts and reads it as pandas
  does: dates written \<^verbatim>\<open>YYYY-MM-DD\<close> with a year from 1700 to 2200 and a day up to 28;
  numbers as nanoseconds since 1970-01-01, within the first year; unsigned decimals with
  an optional fraction. It rejects everything else; the only rejected text the examples
  use is \<^verbatim>\<open>soon\<close> as a date, which pandas rejects too. No example prints a number
  as text, so that conversion is left empty.
\<close>

definition digit :: "char \<Rightarrow> nat option" where
  "digit c = (let n = (of_char c :: nat) in if 48 \<le> n \<and> n \<le> 57 then Some (n - 48) else None)"

fun number_of :: "nat \<Rightarrow> string \<Rightarrow> nat option" where
  "number_of acc [] = Some acc"
| "number_of acc (c # cs) =
     (case digit c of None \<Rightarrow> None | Some d \<Rightarrow> number_of (10 * acc + d) cs)"

definition iso_year :: "string \<Rightarrow> int option" where
  "iso_year s =
     (if length s = 10 \<and> s ! 4 = CHR ''-'' \<and> s ! 7 = CHR ''-'' then
        (case (number_of 0 (take 4 s), number_of 0 (take 2 (drop 5 s)), number_of 0 (drop 8 s)) of
           (Some y, Some m, Some d) \<Rightarrow>
             if 1700 \<le> y \<and> y \<le> 2200 \<and> 1 \<le> m \<and> m \<le> 12 \<and> 1 \<le> d \<and> d \<le> 28
             then Some (int y) else None
         | _ \<Rightarrow> None)
      else None)"

definition epoch_year :: "rat \<Rightarrow> int option" where
  "epoch_year x = (if 0 \<le> x \<and> x < 31536000000000000 then Some 1970 else None)"

definition decimal :: "string \<Rightarrow> rat option" where
  "decimal s =
     (let ip = takeWhile (\<lambda>c. c \<noteq> CHR ''.'') s;
          fp = drop (length ip + 1) s
      in if ip = [] \<or> (fp = [] \<and> length ip < length s) then None
         else (case (number_of 0 ip, number_of 0 fp) of
                 (Some a, Some b) \<Rightarrow> Some (of_nat a + of_nat b / 10 ^ length fp)
               | _ \<Rightarrow> None))"

definition sample :: pandas where
  "sample = \<lparr>year_of_str = iso_year, year_of_num = epoch_year,
             num_of_str = decimal, str_of_num = (\<lambda>x. [])\<rparr>"

section \<open>Example tables\<close>

definition movies :: dataframe where
  "movies =
     \<lparr>columns = [''Title'', ''Release_Date'', ''Vote_Average'', ''Vote_Count'', ''Popularity'',
                 ''Genre'', ''Overview'', ''Original_Language'', ''Poster_Url''],
      rows =
        [[(''Title'', Str ''X''), (''Release_Date'', Str ''2020-05-01''),
          (''Vote_Average'', Str ''7.5''), (''Vote_Count'', Str ''100''),
          (''Popularity'', Str ''50.5''), (''Genre'', Str ''Drama, Romance''),
          (''Overview'', Str ''...''), (''Original_Language'', Str ''en''),
          (''Poster_Url'', Str ''...'')],
         [(''Title'', Str ''Y''), (''Release_Date'', Str ''soon''),
          (''Vote_Average'', Str ''6''), (''Vote_Count'', Str ''10''),
          (''Popularity'', Str ''1.5''), (''Genre'', Str ''Action''),
          (''Overview'', Str ''...''), (''Original_Language'', Str ''en''),
          (''Poster_Url'', Str ''...'')],
         [(''Title'', Str ''Z''), (''Release_Date'', Str ''2019-03-02''),
          (''Vote_Average'', Str ''6''), (''Vote_Count'', Str ''20''),
          (''Popularity'', Str ''3.5''), (''Genre'', Str ''Action, ''),
          (''Overview'', Missing), (''Original_Language'', Str ''en''),
          (''Poster_Url'', Str ''...'')]]\<rparr>"

definition movies_prepared :: dataframe where
  "movies_prepared =
     \<lparr>columns = [''Title'', ''Release_Date'', ''Vote_Average'', ''Vote_Count'', ''Popularity'',
                 ''Genre'', ''Vote_Average_Category''],
      rows =
        [[(''Title'', Str ''X''), (''Release_Date'', Num 2020), (''Vote_Average'', Num (15 / 2)),
          (''Vote_Count'', Num 100), (''Popularity'', Num (101 / 2)),
          (''Genre'', Str ''Drama, Romance''), (''Vote_Average_Category'', Str ''below_avg'')],
         [(''Title'', Str ''Y''), (''Release_Date'', Missing), (''Vote_Average'', Num 6),
          (''Vote_Count'', Num 10), (''Popularity'', Num (3 / 2)),
          (''Genre'', Str ''Action''), (''Vote_Average_Category'', Str ''not_popular'')],
         [(''Title'', Str ''Z''), (''Release_Date'', Num 2019), (''Vote_Average'', Num 6),
          (''Vote_Count'', Num 20), (''Popularity'', Num (7 / 2)),
          (''Genre'', Str ''Action, ''), (''Vote_Average_Category'', Str ''not_popular'')]]\<rparr>"

definition row_Z :: row where
  "row_Z = [(''Title'', Str ''Z''), (''Release_Date'', Num 2019), (''Vote_Average'', Num 6),
            (''Vote_Count'', Num 20), (''Popularity'', Num (7 / 2)),
            (''Genre'', Str ''Action, ''), (''Vote_Average_Category'', Str ''not_popular'')]"

definition movies_clean :: dataframe where
  "movies_clean =
     \<lparr>columns = [''Title'', ''Release_Date'', ''Vote_Average'', ''Vote_Count'', ''Popularity'',
                 ''Genre'', ''Vote_Average_Category''],
      rows =
        [[(''Title'', Str ''X''), (''Release_Date'', Num 2020), (''Vote_Average'', Num (15 / 2)),
          (''Vote_Count'', Num 100), (''Popularity'', Num (101 / 2)), (''Genre'', Str ''Drama''),
          (''Vote_Average_Category'', Str ''below_avg'')],
         [(''Title'', Str ''X''), (''Release_Date'', Num 2020), (''Vote_Average'', Num (15 / 2)),
          (''Vote_Count'', Num 100), (''Popularity'', Num (101 / 2)), (''Genre'', Str ''Romance''),
          (''Vote_Average_Category'', Str ''below_avg'')],
         [(''Title'', Str ''Z''), (''Release_Date'', Num 2019), (''Vote_Average'', Num 6),
          (''Vote_Count'', Num 20), (''Popularity'', Num (7 / 2)), (''Genre'', Str ''Action''),
          (''Vote_Average_Category'', Str ''not_popular'')],
         [(''Title'', Str ''Z''), (''Release_Date'', Num 2019), (''Vote_Average'', Num 6),
          (''Vote_Count'', Num 20), (''Popularity'', Num (7 / 2)), (''Genre'', Str ''''),
          (''Vote_Average_Category'', Str ''not_popular'')]]\<rparr>"

definition movies_again :: dataframe where
  "movies_again =
     \<lparr>columns = [''Title'', ''Release_Date'', ''Vote_Average'', ''Vote_Count'', ''Popularity'',
                 ''Genre'', ''Vote_Average_Category''],
      rows =
        [[(''Title'', Str ''X''), (''Release_Date'', Num 1970), (''Vote_Average'', Num (15 / 2)),
          (''Vote_Count'', Num 100), (''Popularity'', Num (101 / 2)), (''Genre'', Str ''Drama''),
          (''Vote_Average_Category'', Str ''below_avg'')],
         [(''Title'', Str ''X''), (''Release_Date'', Num 1970), (''Vote_Average'', Num (15 / 2)),
          (''Vote_Count'', Num 100), (''Popularity'', Num (101 / 2)), (''Genre'', Str ''Romance''),
          (''Vote_Average_Category'', Str ''below_avg'')],
         [(''Title'', Str ''Z''), (''Release_Date'', Num 1970), (''Vote_Average'', Num 6),
          (''Vote_Count'', Num 20), (''Popularity'', Num (7 / 2)), (''Genre'', Str ''Action''),
          (''Vote_Average_Category'', Str ''not_popular'')],
         [(''Title'', Str ''Z''), (''Release_Date'', Num 1970), (''Vote_Average'', Num 6),
          (''Vote_Count'', Num 20), (''Popularity'', Num (7 / 2)), (''Genre'', Str ''''),
          (''Vote_Average_Category'', Str ''not_popular'')]]\<rparr>"

definition movies_loaded :: dataframe where
  "movies_loaded =
     \<lparr>columns = [''Title'', ''Release_Date'', ''Vote_Average'', ''Vote_Count'', ''Popularity'',
                 ''Genre'', ''Overview'', ''Original_Language'', ''Poster_Url''],
      rows =
        [[(''Title'', Str ''X''), (''Release_Date'', Num 2020), (''Vote_Average'', Str ''7.5''),
          (''Vote_Count'', Num 100), (''Popularity'', Num (101 / 2)), (''Genre'', Str ''Drama''),
          (''Overview'', Str ''...''), (''Original_Language'', Str ''en''),
          (''Poster_Url'', Str ''...'')],
         [(''Title'', Str ''X''), (''Release_Date'', Num 2020), (''Vote_Average'', Str ''7.5''),
          (''Vote_Count'', Num 100), (''Popularity'', Num (101 / 2)), (''Genre'', Str ''Romance''),
          (''Overview'', Str ''...''), (''Original_Language'', Str ''en''),
          (''Poster_Url'', Str ''...'')],
         [(''Title'', Str ''Y''), (''Release_Date'', Missing), (''Vote_Average'', Str ''6''),
          (''Vote_Count'', Num 10), (''Popularity'', Num (3 / 2)), (''Genre'', Str ''Action''),
          (''Overview'', Str ''...''), (''Original_Language'', Str ''en''),
          (''Poster_Url'', Str ''...'')],
         [(''Title'', Str ''Z''), (''Release_Date'', Num 2019), (''Vote_Average'', Str ''6''),
          (''Vote_Count'', Num 20), (''Popularity'', Num (7 / 2)), (''Genre'', Str ''Action''),
          (''Overview'', Missing), (''Original_Language'', Str ''en''),
          (''Poster_Url'', Str ''...'')],
         [(''Title'', Str ''Z''), (''Release_Date'', Num 2019), (''Vote_Average'', Str ''6''),
          (''Vote_Count'', Num 20), (''Popularity'', Num (7 / 2)), (''Genre'', Str ''''),
          (''Overview'', Missing), (''Original_Language'', Str ''en''),
          (''Poster_Url'', Str ''...'')]]\<rparr>"

definition repeated :: dataframe where
  "repeated =
     \<lparr>columns = [''Title'', ''Release_Date'', ''Vote_Average'', ''Vote_Count'', ''Popularity'',
                 ''Genre''],
      rows =
        [[(''Title'', Str ''X''), (''Release_Date'', Str ''2020-05-01''),
          (''Vote_Average'', Str ''7.5''), (''Vote_Count'', Str ''100''),
          (''Popularity'', Str ''50.5''), (''Genre'', Str ''Action, Action'')]]\<rparr>"

definition repeated_clean :: dataframe where
  "repeated_clean =
     \<lparr>columns = [''Title'', ''Release_Date'', ''Vote_Average'', ''Vote_Count'', ''Popularity'',
                 ''Genre''],
      rows =
        [[(''Title'', Str ''X''), (''Release_Date'', Num 2020), (''Vote_Average'', Num (15 / 2)),
          (''Vote_Count'', Num 100), (''Popularity'', Num (101 / 2)), (''Genre'', Str ''Action'')],
         [(''Title'', Str ''X''), (''Release_Date'', Num 2020), (''Vote_Average'', Num (15 / 2)),
          (''Vote_Count'', Num 100), (''Popularity'', Num (101 / 2)), (''Genre'', Str ''Action'')]]\<rparr>"

definition listed :: dataframe where
  "listed =
     \<lparr>columns = [''Title'', ''Genre'', ''Popularity''],
      rows = [[(''Title'', Str ''X''), (''Genre'', Str ''Action, Comedy''),
               (''Popularity'', Num 3)],
              [(''Title'', Str ''Y''), (''Genre'', Str ''Action, Comedy, Drama''),
               (''Popularity'', Num 4)]]\<rparr>"

definition row_Y :: row where
  "row_Y = [(''Title'', Str ''Y''), (''Genre'', Str ''Action, Comedy, Drama''),
            (''Popularity'', Num 4)]"

definition listed_exploded :: "row list" where
  "listed_exploded =
     [[(''Title'', Str ''X''), (''Genre'', Str ''Action''), (''Popularity'', Num 3)],
      [(''Title'', Str ''X''), (''Genre'', Str ''Comedy''), (''Popularity'', Num 3)],
      [(''Title'', Str ''Y''), (''Genre'', Str ''Action''), (''Popularity'', Num 4)],
      [(''Title'', Str ''Y''), (''Genre'', Str ''Comedy''), (''Popularity'', Num 4)],
      [(''Title'', Str ''Y''), (''Genre'', Str ''Drama''), (''Popularity'', Num 4)]]"

definition flat :: dataframe where
  "flat =
     \<lparr>columns = [''Title'', ''Vote_Average''],
      rows = [[(''Title'', Str ''X''), (''Vote_Average'', Num 7)],
              [(''Title'', Str ''Y''), (''Vote_Average'', Missing)],
              [(''Title'', Str ''Z''), (''Vote_Average'', Num 7)]]\<rparr>"

text \<open>The values and labels of the bucket example.\<close>

definition one_to_ten :: "rat list" where
  "one_to_ten = [1, 2, 3, 4, 5, 6, 7, 8, 9, 10]"

definition abcd :: "string list" where
  "abcd = [''a'', ''b'', ''c'', ''d'']"

definition ten :: dataframe where
  "ten = \<lparr>columns = [''v''], rows = map (\<lambda>c. [(''v'', c)]) (map Num one_to_ten @ [Missing])\<rparr>"

definition ten_binned :: dataframe where
  "ten_binned =
     \<lparr>columns = [''v'', ''v_Category''],
      rows = [[(''v'', Num 1), (''v_Category'', Str ''a'')],
              [(''v'', Num 2), (''v_Category'', Str ''a'')],
              [(''v'', Num 3), (''v_Category'', Str ''a'')],
              [(''v'', Num 4), (''v_Category'', Str ''b'')],
              [(''v'', Num 5), (''v_Category'', Str ''b'')],
              [(''v'', Num 6), (''v_Category'', Str ''c'')],
              [(''v'', Num 7), (''v_Category'', Str ''c'')],
              [(''v'', Num 8), (''v_Category'', Str ''d'')],
              [(''v'', Num 9), (''v_Category'', Str ''d'')],
              [(''v'', Num 10), (''v_Category'', Str ''d'')],
              [(''v'', Missing), (''v_Category'', Missing)]]\<rparr>"

section \<open>Basic facts\<close>

lemma set_unique [simp]: "set (unique xs) = set xs"
  by (induction xs rule: unique.induct) auto

lemma distinct_unique [simp]: "distinct (unique xs)"
  by (induction xs rule: unique.induct) auto

lemma unique_distinct_id: "distinct xs \<Longrightarrow> unique xs = xs"
proof (induction xs rule: unique.induct)
  case 1
  show ?case by simp
next
  case (2 x xs)
  then have "filter (\<lambda>y. y \<noteq> x) xs = xs"
    by (auto intro: filter_True)
  with 2 show ?case by simp
qed

lemma and_then_Inr [simp]: "and_then (Inr x) f = f x"
  by (simp add: and_then_def)

lemma and_then_Inl [simp]: "and_then (Inl e) f = Inl e"
  by (simp add: and_then_def)

lemma and_then_eq_Inr:
  "and_then m f = Inr y \<longleftrightarrow> (\<exists>x. m = Inr x \<and> f x = Inr y)"
  by (cases m) simp_all

lemma columns_map_col [simp]: "columns (map_col c f df) = columns df"
  by (simp add: map_col_def)

lemma columns_drop_columns [simp]:
  "columns (drop_columns cs df) = filter (\<lambda>c. c \<notin> set cs) (columns df)"
  by (simp add: drop_columns_def)






section \<open>Well-formed tables through the pipeline\<close>

lemma rows_map_col [simp]:
  "rows (map_col c f df) = map (map (\<lambda>(n, w). if n = c then (n, f w) else (n, w))) (rows df)"
  by (simp add: map_col_def)

lemma map_fst_update [simp]:
  "map fst (map (\<lambda>(n, w). if n = c then (n, g n w) else (n, w)) r) = map fst r"
  by (induction r) auto

lemma map_fst_set_field [simp]: "map fst (set_field c v r) = map fst r"
  by (induction r) (auto simp: set_field_def)

lemma map_fst_drop [simp]:
  "map fst (filter (\<lambda>(n, w). P n) r) = filter P (map fst r)"
  by (induction r) auto

lemma wf_rows: "well_formed df \<Longrightarrow> r \<in> set (rows df) \<Longrightarrow> map fst r = columns df"
  by (simp add: well_formed_def list_all_iff)

lemma wfI: "distinct (columns df) \<Longrightarrow> (\<And>r. r \<in> set (rows df) \<Longrightarrow> map fst r = columns df) \<Longrightarrow> well_formed df"
  by (simp add: well_formed_def list_all_iff)

lemma wf_distinct: "well_formed df \<Longrightarrow> distinct (columns df)"
  by (simp add: well_formed_def)

lemma wf_map_col: "well_formed df \<Longrightarrow> well_formed (map_col c f df)"
proof (rule wfI)
  assume w: "well_formed df"
  then show "distinct (columns (map_col c f df))" by (simp add: wf_distinct)
  fix r assume "r \<in> set (rows (map_col c f df))"
  then obtain r0 where r0: "r0 \<in> set (rows df)"
    and r: "r = map (\<lambda>(n, w). if n = c then (n, f w) else (n, w)) r0" by auto
  have "map fst r = map fst r0"
    unfolding r by (rule map_fst_update [of c "\<lambda>n. f"])
  with wf_rows [OF w r0] show "map fst r = columns (map_col c f df)" by simp
qed

lemma wf_drop_columns: "well_formed df \<Longrightarrow> well_formed (drop_columns cs df)"
proof (rule wfI)
  assume w: "well_formed df"
  then show "distinct (columns (drop_columns cs df))" by (simp add: wf_distinct)
  fix r assume "r \<in> set (rows (drop_columns cs df))"
  then obtain r0 where r0: "r0 \<in> set (rows df)"
    and r: "r = filter (\<lambda>(n, w). n \<notin> set cs) r0" by (auto simp: drop_columns_def)
  show "map fst r = columns (drop_columns cs df)"
    unfolding r using wf_rows [OF w r0] by simp
qed

lemma wf_coerce_col: "well_formed df \<Longrightarrow> coerce_col c f df = Inr d \<Longrightarrow> well_formed d"
  by (auto simp: coerce_col_def wf_map_col split: if_splits)

lemma wf_assign_col: "well_formed df \<Longrightarrow> well_formed (assign_col c g df)"
proof (cases "c \<in> set (columns df)")
  case True
  assume w: "well_formed df"
  show ?thesis
  proof (rule wfI)
    show "distinct (columns (assign_col c g df))"
      using w True by (simp add: assign_col_def wf_distinct)
    fix r assume "r \<in> set (rows (assign_col c g df))"
    then obtain r0 where "r0 \<in> set (rows df)" "r = set_field c (g r0) r0"
      using True by (auto simp: assign_col_def)
    then show "map fst r = columns (assign_col c g df)"
      using wf_rows [OF w] True by (simp add: assign_col_def)
  qed
next
  case False
  assume w: "well_formed df"
  show ?thesis
  proof (rule wfI)
    show "distinct (columns (assign_col c g df))"
      using w False by (simp add: assign_col_def wf_distinct)
    fix r assume "r \<in> set (rows (assign_col c g df))"
    then obtain r0 where "r0 \<in> set (rows df)" "r = r0 @ [(c, g r0)]"
      using False by (auto simp: assign_col_def)
    then show "map fst r = columns (assign_col c g df)"
      using wf_rows [OF w] False by (simp add: assign_col_def)
  qed
qed

lemma wf_categorize_col: "well_formed df \<Longrightarrow> categorize_col L df col labs = Inr d \<Longrightarrow> well_formed d"
  by (auto simp: categorize_col_def Let_def wf_map_col wf_assign_col split: if_splits)

lemma wf_and_then:
  assumes "and_then m f = Inr d" and "\<And>x. m = Inr x \<Longrightarrow> well_formed x"
    and "\<And>x. well_formed x \<Longrightarrow> f x = Inr d \<Longrightarrow> well_formed d"
  shows "well_formed d"
  using assms by (cases m) simp_all

lemma wf_numeric_coercion:
  assumes "well_formed df" and "numeric_coercion L df = Inr d"
  shows "well_formed d"
  using assms(2) unfolding numeric_coercion_def
  by (elim wf_and_then) (erule wf_coerce_col [OF assms(1)] wf_coerce_col | assumption)+

lemma wf_prepare:
  assumes "well_formed df" and "prepare L df = Inr d"
  shows "well_formed d"
proof -
  from assms(2) obtain d1 d2 where 1: "coerce_col ''Release_Date'' (dt_year L) df = Inr d1"
    and 2: "numeric_coercion L (drop_columns cols d1) = Inr d2"
    and 3: "categorize_col L d2 ''Vote_Average'' labels = Inr d"
    by (auto simp: prepare_def date_normalization_def and_then_eq_Inr)
  have "well_formed d1" using assms(1) 1 by (rule wf_coerce_col)
  then have "well_formed (drop_columns cols d1)" by (rule wf_drop_columns)
  then have "well_formed d2" using 2 by (rule wf_numeric_coercion)
  then show ?thesis using 3 by (rule wf_categorize_col)
qed

lemma columns_row_elimination [simp]: "columns (row_elimination df) = columns df"
  by (simp add: row_elimination_def drop_duplicates_def dropna_def)

lemma rows_row_elimination:
  "rows (row_elimination df) = unique (filter (\<lambda>r. Missing \<notin> snd ` set r) (rows df))"
  by (simp add: row_elimination_def drop_duplicates_def dropna_def)

lemma wf_row_elimination: "well_formed df \<Longrightarrow> well_formed (row_elimination df)"
  by (rule wfI) (auto simp: rows_row_elimination wf_distinct dest: wf_rows)

lemma columns_explode_genre [simp]: "columns (explode_genre L df) = columns df"
  by (simp add: explode_genre_def)

lemma in_rows_explode_genre:
  "r \<in> set (rows (explode_genre L df)) \<Longrightarrow>
     r \<in> set (rows df) \<or> (\<exists>r0 \<in> set (rows df). \<exists>t. r = set_field ''Genre'' (Str t) r0)"
  by (auto simp: explode_genre_def explode_row_def genre_tokens_def split: if_splits)

lemma wf_explode_genre: "well_formed df \<Longrightarrow> well_formed (explode_genre L df)"
  by (rule wfI) (auto simp: wf_distinct dest!: in_rows_explode_genre dest: wf_rows)

lemma snd_set_field: "snd ` set (set_field c v r) \<subseteq> insert v (snd ` set r)"
  by (auto simp: set_field_def split: if_splits)

lemma no_missing_explode_genre:
  assumes "\<And>r. r \<in> set (rows df) \<Longrightarrow> Missing \<notin> snd ` set r"
    and "r \<in> set (rows (explode_genre L df))"
  shows "Missing \<notin> snd ` set r"
  using in_rows_explode_genre [OF assms(2)]
proof
  assume "r \<in> set (rows df)"
  then show ?thesis by (rule assms(1))
next
  assume "\<exists>r0 \<in> set (rows df). \<exists>t. r = set_field ''Genre'' (Str t) r0"
  then obtain r0 t where r0: "r0 \<in> set (rows df)" and r: "r = set_field ''Genre'' (Str t) r0"
    by blast
  have "snd ` set r \<subseteq> insert (Str t) (snd ` set r0)"
    unfolding r by (rule snd_set_field)
  with assms(1) [OF r0] show ?thesis by auto
qed

lemma field_present:
  "c \<in> fst ` set r \<Longrightarrow> field r c \<in> snd ` set r"
proof -
  assume "c \<in> fst ` set r"
  then obtain v where "map_of r c = Some v"
    by (metis domIff dom_map_of_conv_image_fst not_Some_eq)
  then show ?thesis
    by (auto simp: field_def dest: map_of_SomeD intro: rev_image_eqI)
qed

lemma eda_pipeline_Inr:
  "eda_pipeline L df = Inr out \<longleftrightarrow>
     (\<exists>d. prepare L df = Inr d \<and> out = explode_genre L (row_elimination d))"
  unfolding eda_pipeline_def and_then_eq_Inr by auto

text \<open>
  Claim C1. Whenever the cleaning pipeline returns a table for a well-formed input, every
  row of that table carries exactly the retained columns and holds a non-missing value in
  each of them, the derived category included when it was created.
\<close>

theorem no_missing_after_cleaning:
  assumes "well_formed df" and "eda_pipeline L df = Inr out"
  shows "well_formed out \<and> no_missing out"
proof -
  from assms(2) obtain d where d: "prepare L df = Inr d"
    and out: "out = explode_genre L (row_elimination d)"
    unfolding eda_pipeline_Inr by blast
  have w: "well_formed out"
    unfolding out using wf_prepare [OF assms(1) d]
    by (intro wf_explode_genre wf_row_elimination)
  have "field r c \<noteq> Missing" if r: "r \<in> set (rows out)" and c: "c \<in> set (columns out)" for r c
  proof -
    have "Missing \<notin> snd ` set r"
      using r unfolding out
      by (rule no_missing_explode_genre [rotated]) (simp add: rows_row_elimination)
    moreover have "c \<in> fst ` set r"
      using wf_rows [OF w r] c by (metis set_map)
    ultimately show ?thesis
      using field_present by metis
  qed
  with w show ?thesis
    by (auto simp: no_missing_def list_all_iff dest: wf_rows)
qed

lemma movies_run: "eda_pipeline sample movies = Inr movies_clean"
  by code_simp

lemma wf_movies: "well_formed movies"
  by code_simp

theorem no_missing_after_cleaning_witness:
  "well_formed movies \<and> eda_pipeline sample movies = Inr movies_clean \<and> well_formed movies_clean \<and>
   no_missing movies_clean"
  using no_missing_after_cleaning [OF wf_movies movies_run] wf_movies movies_run by simp

section \<open>Duplicates and genre explosion\<close>

lemma split_genre_nonempty [simp]: "split_genre s \<noteq> []"
  by (induction s rule: split_genre.induct) (auto split: list.splits)

lemma genre_tokens_nonempty [simp]: "genre_tokens L r \<noteq> []"
  by (simp add: genre_tokens_def)

lemma field_set_field: "c \<in> fst ` set r \<Longrightarrow> field (set_field c v r) c = v"
  by (induction r) (auto simp: field_def set_field_def)

lemma field_set_field_other: "c' \<noteq> c \<Longrightarrow> field (set_field c v r) c' = field r c'"
  by (induction r) (auto simp: field_def set_field_def)

lemma other_fields_set_field [simp]:
  "other_fields (set_field ''Genre'' v r) = other_fields r"
  by (induction r) (auto simp: other_fields_def set_field_def)

lemma set_field_set_field [simp]: "set_field c v (set_field c v' r) = set_field c v r"
  by (induction r) (auto simp: set_field_def)

lemma other_fields_explode_row:
  "x \<in> set (explode_row L r) \<Longrightarrow> other_fields x = other_fields r"
  by (auto simp: explode_row_def)

lemma explode_row_nonempty [simp]: "explode_row L r \<noteq> []"
  by (simp add: explode_row_def)

lemma distinct_explode_row:
  assumes "''Genre'' \<in> fst ` set r" and "distinct (genre_tokens L r)"
  shows "distinct (explode_row L r)"
proof -
  have "inj (\<lambda>t. set_field ''Genre'' (Str t) r)"
  proof (rule injI)
    fix t t' assume "set_field ''Genre'' (Str t) r = set_field ''Genre'' (Str t') r"
    then have "field (set_field ''Genre'' (Str t) r) ''Genre''
                 = field (set_field ''Genre'' (Str t') r) ''Genre''"
      by simp
    then show "t = t'"
      by (simp add: field_set_field [OF assms(1)])
  qed
  then show ?thesis
    unfolding explode_row_def using assms(2)
    by (simp add: distinct_map inj_on_def)
qed

lemma distinct_exploded_rows:
  assumes g: "\<And>r. r \<in> set rs \<Longrightarrow> ''Genre'' \<in> fst ` set r"
    and o: "distinct (map other_fields rs)"
    and t: "\<And>r. r \<in> set rs \<Longrightarrow> distinct (genre_tokens L r)"
  shows "distinct (concat (map (explode_row L) rs))"
proof (rule distinct_concat)
  have same: "r = r'"
    if "r \<in> set rs" "r' \<in> set rs" "x \<in> set (explode_row L r)" "x \<in> set (explode_row L r')"
    for r r' x
  proof -
    have "other_fields r = other_fields r'"
      using that(3,4) by (metis other_fields_explode_row)
    with o that(1,2) show ?thesis
      by (auto simp: distinct_map dest: inj_onD)
  qed
  have inj: "inj_on (explode_row L) (set rs)"
  proof (rule inj_onI)
    fix r r' assume r: "r \<in> set rs" "r' \<in> set rs" and e: "explode_row L r = explode_row L r'"
    have "hd (explode_row L r) \<in> set (explode_row L r)" by simp
    moreover from e have "hd (explode_row L r) \<in> set (explode_row L r')" by simp
    ultimately show "r = r'" using r by (rule same [rotated 2])
  qed
  from o have "distinct rs" by (simp add: distinct_map)
  with inj show "distinct (map (explode_row L) rs)"
    by (simp add: distinct_map)
  show "distinct ys" if "ys \<in> set (map (explode_row L) rs)" for ys
    using that g t by (auto intro: distinct_explode_row)
  show "set ys \<inter> set zs = {}"
    if "ys \<in> set (map (explode_row L) rs)" "zs \<in> set (map (explode_row L) rs)" "ys \<noteq> zs"
    for ys zs
  proof -
    from that obtain r r' where r: "r \<in> set rs" "r' \<in> set rs"
      and ys: "ys = explode_row L r" and zs: "zs = explode_row L r'" by auto
    show ?thesis
    proof (rule ccontr)
      assume "set ys \<inter> set zs \<noteq> {}"
      then obtain x where "x \<in> set ys" "x \<in> set zs" by blast
      with r have "r = r'" unfolding ys zs by (rule same)
      with that(3) show False by (simp add: ys zs)
    qed
  qed
qed

lemma distinct_row_elimination [simp]: "distinct (rows (row_elimination df))"
  by (simp add: rows_row_elimination)

lemma prepare_eda_pipeline:
  "prepare L df = Inr d \<Longrightarrow> eda_pipeline L df = Inr (explode_genre L (row_elimination d))"
  by (simp add: eda_pipeline_def)

text \<open>
  Claim C2, as amended. Duplicates are removed before the genres are exploded: the table
  that leaves row elimination has no two identical rows. The explosion that follows can
  emit identical rows again, and nothing removes them; the final table is free of
  identical rows whenever no Genre value repeats a token and no two rows of the
  eliminated table agree on all fields other than Genre.
\<close>

theorem duplicates_only_from_explosion:
  assumes "well_formed df" and "prepare L df = Inr d"
  shows "eda_pipeline L df = Inr (explode_genre L (row_elimination d)) \<and>
         distinct (rows (row_elimination d)) \<and>
         (distinct (map other_fields (rows (row_elimination d))) \<and>
          list_all (\<lambda>r. distinct (genre_tokens L r)) (rows (row_elimination d)) \<longrightarrow>
            distinct (rows (explode_genre L (row_elimination d))))"
proof -
  let ?e = "row_elimination d"
  have w: "well_formed ?e"
    using wf_prepare [OF assms] by (rule wf_row_elimination)
  have "distinct (rows (explode_genre L ?e))"
    if o: "distinct (map other_fields (rows ?e))"
      and t: "list_all (\<lambda>r. distinct (genre_tokens L r)) (rows ?e)"
  proof (cases "''Genre'' \<in> set (columns ?e)")
    case True
    have "''Genre'' \<in> fst ` set r" if "r \<in> set (rows ?e)" for r
      using wf_rows [OF w that] True by (metis set_map)
    then have "distinct (concat (map (explode_row L) (rows ?e)))"
      using o t by (intro distinct_exploded_rows) (auto simp: list_all_iff)
    with True show ?thesis by (simp add: explode_genre_def)
  next
    case False
    then show ?thesis by (simp add: explode_genre_def)
  qed
  then show ?thesis
    using prepare_eda_pipeline [OF assms(2)] by simp
qed

lemma movies_prepare: "prepare sample movies = Inr movies_prepared"
  by code_simp

theorem duplicates_only_from_explosion_witness:
  "well_formed movies \<and> prepare sample movies = Inr movies_prepared \<and>
   eda_pipeline sample movies = Inr (explode_genre sample (row_elimination movies_prepared)) \<and>
   distinct (rows (row_elimination movies_prepared)) \<and>
   distinct (map other_fields (rows (row_elimination movies_prepared))) \<and>
   list_all (\<lambda>r. distinct (genre_tokens sample r)) (rows (row_elimination movies_prepared)) \<and>
   distinct (rows (explode_genre sample (row_elimination movies_prepared)))"
proof -
  have o: "distinct (map other_fields (rows (row_elimination movies_prepared)))"
    by code_simp
  have t: "list_all (\<lambda>r. distinct (genre_tokens sample r)) (rows (row_elimination movies_prepared))"
    by code_simp
  show ?thesis
    using duplicates_only_from_explosion [OF wf_movies movies_prepare] wf_movies movies_prepare o t
    by simp
qed

text \<open>
  The claim as stated fails: a complete row whose Genre is \<^verbatim>\<open>Action, Action\<close> leaves the
  pipeline as two identical rows.
\<close>

theorem repeated_token_counterexample:
  "eda_pipeline sample repeated = Inr repeated_clean \<and> \<not> distinct (rows repeated_clean)"
  by code_simp

section \<open>Running the pipeline on its own output\<close>

text \<open>
  Idempotence of the whole pipeline fails: on its own output the pipeline reads the year
  numbers of Release_Date as timestamps, and every year becomes 1970.
\<close>

theorem rerun_counterexample:
  "eda_pipeline sample movies = Inr movies_clean \<and>
   eda_pipeline sample movies_clean = Inr movies_again \<and> movies_again \<noteq> movies_clean"
  by code_simp

lemma drop_columns_idem: "drop_columns cs (drop_columns cs df) = drop_columns cs df"
  by (simp add: drop_columns_def)

lemma row_elimination_idem: "row_elimination (row_elimination df) = row_elimination df"
proof -
  let ?P = "\<lambda>r :: row. Missing \<notin> snd ` set r"
  have "filter ?P (unique (filter ?P (rows df))) = unique (filter ?P (rows df))"
    by (rule filter_True) simp
  then show ?thesis
    by (simp add: row_elimination_def drop_duplicates_def dropna_def unique_distinct_id)
qed

lemma split_genre_head: "split_genre (d # cs) = t # ts \<Longrightarrow> t = [] \<or> hd t = d"
  by (cases cs) (auto split: if_splits list.splits)

lemma split_genre_token: "t \<in> set (split_genre s) \<Longrightarrow> split_genre t = [t]"
proof (induction s arbitrary: t rule: split_genre.induct)
  case 1
  then show ?case by simp
next
  case (2 c)
  then show ?case by simp
next
  case (3 c d cs)
  show ?case
  proof (cases "c = CHR '','' \<and> d = CHR '' ''")
    case True
    with 3 show ?thesis by auto
  next
    case False
    obtain t1 ts where s: "split_genre (d # cs) = t1 # ts"
      by (cases "split_genre (d # cs)") simp_all
    from 3(3) False s have "t = c # t1 \<or> t \<in> set ts" by auto
    then show ?thesis
    proof
      assume "t \<in> set ts"
      with 3(2) [OF False] s show ?thesis by simp
    next
      assume t: "t = c # t1"
      have t1: "split_genre t1 = [t1]"
        using 3(2) [OF False, of t1] s by simp
      from split_genre_head [OF s] show ?thesis
      proof
        assume "t1 = []"
        with t show ?thesis by simp
      next
        assume h: "hd t1 = d"
        show ?thesis
        proof (cases t1)
          case Nil
          with t show ?thesis by simp
        next
          case (Cons e t1')
          with h have "e = d" by simp
          with Cons t t1 False show ?thesis by simp
        qed
      qed
    qed
  qed
qed

lemma explode_row_token:
  assumes "''Genre'' \<in> fst ` set r" and "x \<in> set (explode_row L r)"
  shows "explode_row L x = [x]"
proof -
  from assms(2) obtain t where t: "t \<in> set (genre_tokens L r)"
    and x: "x = set_field ''Genre'' (Str t) r"
    by (auto simp: explode_row_def)
  have "field x ''Genre'' = Str t"
    unfolding x using assms(1) by (rule field_set_field)
  moreover have "split_genre t = [t]"
    using t unfolding genre_tokens_def by (rule split_genre_token)
  ultimately show ?thesis
    by (simp add: explode_row_def genre_tokens_def astype_str_def x)
qed

lemma concat_map_singletons: "(\<And>x. x \<in> set xs \<Longrightarrow> f x = [x]) \<Longrightarrow> concat (map f xs) = xs"
  by (induction xs) simp_all

lemma explode_genre_idem:
  assumes "well_formed df"
  shows "explode_genre L (explode_genre L df) = explode_genre L df"
proof (cases "''Genre'' \<in> set (columns df)")
  case True
  have "explode_row L x = [x]" if "x \<in> set (concat (map (explode_row L) (rows df)))" for x
  proof -
    from that obtain r where r: "r \<in> set (rows df)" and x: "x \<in> set (explode_row L r)"
      by auto
    have "''Genre'' \<in> fst ` set r"
      using wf_rows [OF assms r] True by (metis set_map)
    then show ?thesis using x by (rule explode_row_token)
  qed
  then have "concat (map (explode_row L) (concat (map (explode_row L) (rows df))))
               = concat (map (explode_row L) (rows df))"
    by (rule concat_map_singletons)
  with True show ?thesis by (simp add: explode_genre_def)
next
  case False
  then show ?thesis by (simp add: explode_genre_def)
qed

text \<open>
  Claim C3, as amended. Column pruning, row elimination and genre explosion are each
  idempotent: applied to their own output they change nothing. (The pipeline as a whole
  is not, as the example above shows.)
\<close>

theorem cleaning_steps_idempotent:
  assumes "well_formed df"
  shows "drop_columns cols (drop_columns cols df) = drop_columns cols df \<and>
         row_elimination (row_elimination df) = row_elimination df \<and>
         explode_genre L (explode_genre L df) = explode_genre L df"
  using assms by (simp add: drop_columns_idem row_elimination_idem explode_genre_idem)

theorem cleaning_steps_idempotent_witness:
  "well_formed movies_prepared \<and>
   drop_columns cols (drop_columns cols movies_prepared) = drop_columns cols movies_prepared \<and>
   row_elimination (row_elimination movies_prepared) = row_elimination movies_prepared \<and>
   explode_genre sample (explode_genre sample movies_prepared) = explode_genre sample movies_prepared"
proof -
  have w: "well_formed movies_prepared" by code_simp
  show ?thesis using cleaning_steps_idempotent [OF w] w by simp
qed

section \<open>Explosion correctness\<close>

lemma join_genre_Cons: "ts \<noteq> [] \<Longrightarrow> join_genre (t # ts) = t @ '', '' @ join_genre ts"
  by (cases ts) simp_all

lemma join_genre_push:
  "ts \<noteq> [] \<Longrightarrow> join_genre ((c # hd ts) # tl ts) = c # join_genre ts"
  by (cases ts rule: join_genre.cases) simp_all

lemma join_split_genre: "join_genre (split_genre s) = s"
proof (induction s rule: split_genre.induct)
  case 1
  show ?case by simp
next
  case (2 c)
  show ?case by simp
next
  case (3 c d cs)
  show ?case
  proof (cases "c = CHR '','' \<and> d = CHR '' ''")
    case True
    with 3(1) show ?thesis by (simp add: join_genre_Cons)
  next
    case False
    obtain t ts where s: "split_genre (d # cs) = t # ts"
      by (cases "split_genre (d # cs)") simp_all
    have "join_genre ((c # t) # ts) = c # join_genre (t # ts)"
      using join_genre_push [of "t # ts" c] by simp
    moreover have "split_genre (c # d # cs) = (c # t) # ts"
      using False s by auto
    ultimately show ?thesis
      using 3(2) [OF False] s by simp
  qed
qed

lemma copies_of_explode_row:
  assumes "''Genre'' \<in> fst ` set r"
  shows "copies_of L r (explode_row L r)"
  unfolding copies_of_def explode_row_def list_all2_map1
  by (rule list_all2_refl) (simp add: field_set_field [OF assms])

lemma split_genre_plain: "\<not> has_delimiter t \<Longrightarrow> split_genre t = [t]"
proof (induction t rule: split_genre.induct)
  case 1
  show ?case by simp
next
  case (2 c)
  show ?case by simp
next
  case (3 c d cs)
  from 3(3) have n: "\<not> (c = CHR '','' \<and> d = CHR '' '')" and r: "\<not> has_delimiter (d # cs)"
    by simp_all
  from 3(2) [OF n r] n show ?case by auto
qed

lemma split_genre_append:
  "\<not> has_delimiter t \<Longrightarrow> split_genre (t @ CHR '','' # CHR '' '' # u) = t # split_genre u"
proof (induction t rule: split_genre.induct)
  case 1
  show ?case by simp
next
  case (2 c)
  show ?case by simp
next
  case (3 c d cs)
  from 3(3) have n: "\<not> (c = CHR '','' \<and> d = CHR '' '')" and r: "\<not> has_delimiter (d # cs)"
    by simp_all
  from 3(2) [OF n r] n show ?case by auto
qed

lemma split_join_genre:
  "ts \<noteq> [] \<Longrightarrow> list_all (\<lambda>t. \<not> has_delimiter t) ts \<Longrightarrow> split_genre (join_genre ts) = ts"
proof (induction ts rule: join_genre.induct)
  case 1
  then show ?case by simp
next
  case (2 t)
  then show ?case by (simp add: split_genre_plain)
next
  case (3 t u ts)
  then show ?case by (simp add: split_genre_append)
qed

lemma split_genre_delimiter_free: "t \<in> set (split_genre s) \<Longrightarrow> \<not> has_delimiter t"
proof (induction s arbitrary: t rule: split_genre.induct)
  case 1
  then show ?case by simp
next
  case (2 c)
  then show ?case by simp
next
  case (3 c d cs)
  show ?case
  proof (cases "c = CHR '','' \<and> d = CHR '' ''")
    case True
    with 3(1,3) show ?thesis by auto
  next
    case False
    obtain t1 ts where s: "split_genre (d # cs) = t1 # ts"
      by (cases "split_genre (d # cs)") simp_all
    from 3(3) False s have "t = c # t1 \<or> t \<in> set ts" by auto
    then show ?thesis
    proof
      assume "t \<in> set ts"
      with 3(2) [OF False] s show ?thesis by simp
    next
      assume t: "t = c # t1"
      have t1: "\<not> has_delimiter t1"
        using 3(2) [OF False, of t1] s by simp
      show ?thesis
      proof (cases t1)
        case Nil
        with t show ?thesis by simp
      next
        case (Cons e t1')
        with split_genre_head [OF s] have "e = d" by simp
        with Cons t t1 False show ?thesis by auto
      qed
    qed
  qed
qed

lemma tokens_of_split_genre: "tokens_of s (split_genre s)"
  by (simp add: tokens_of_def join_split_genre list_all_iff split_genre_delimiter_free)

lemma tokens_of_unique: "tokens_of s ts \<Longrightarrow> split_genre s = ts"
  by (auto simp: tokens_of_def split_join_genre)

text \<open>
  Claim C4. On a table with a Genre column the explosion emits, for each row in turn, one
  row per token of its Genre text. Whenever that text consists of N tokens separated by
  the delimiter (N at least one, no token containing the delimiter), exactly N rows come
  out, the i-th being the original with the i-th token as its Genre; and every text
  consists of such tokens in exactly one way. Each emitted row has the fields of the
  original and equals it outside Genre. A row whose Genre is \<^verbatim>\<open>Action, Comedy\<close> gives
  exactly two rows, one with Action and one with Comedy.
\<close>

theorem explosion_correct:
  assumes "well_formed df" and "''Genre'' \<in> set (columns df)"
  shows "rows (explode_genre L df) = concat (map (explode_row L) (rows df)) \<and>
         list_all (\<lambda>r. tokens_of (astype_str L (field r ''Genre'')) (genre_tokens L r) \<and>
                      length (explode_row L r) = length (genre_tokens L r) \<and>
                      copies_of L r (explode_row L r) \<and>
                      join_genre (genre_tokens L r) = astype_str L (field r ''Genre'') \<and>
                      (field r ''Genre'' = Str ''Action, Comedy'' \<longrightarrow>
                         explode_row L r = [set_field ''Genre'' (Str ''Action'') r,
                                            set_field ''Genre'' (Str ''Comedy'') r]))
           (rows df) \<and>
         (tokens_of (astype_str L (field r' ''Genre'')) ts \<longrightarrow>
            explode_row L r' = map (\<lambda>t. set_field ''Genre'' (Str t) r') ts \<and>
            length (explode_row L r') = length ts)"
proof -
  have "''Genre'' \<in> fst ` set r" if "r \<in> set (rows df)" for r
    using wf_rows [OF assms(1) that] assms(2) by (metis set_map)
  then have "copies_of L r (explode_row L r)" if "r \<in> set (rows df)" for r
    using that by (intro copies_of_explode_row)
  moreover have "join_genre (genre_tokens L r) = astype_str L (field r ''Genre'')" for r
    by (simp add: genre_tokens_def join_split_genre)
  moreover have "tokens_of (astype_str L (field r ''Genre'')) (genre_tokens L r)" for r
    by (simp add: genre_tokens_def tokens_of_split_genre)
  moreover have "explode_row L r = [set_field ''Genre'' (Str ''Action'') r,
                                     set_field ''Genre'' (Str ''Comedy'') r]"
    if "field r ''Genre'' = Str ''Action, Comedy''" for r
    using that by (simp add: explode_row_def genre_tokens_def astype_str_def)
  moreover have "explode_row L r' = map (\<lambda>t. set_field ''Genre'' (Str t) r') ts \<and>
                 length (explode_row L r') = length ts"
    if "tokens_of (astype_str L (field r' ''Genre'')) ts"
    using tokens_of_unique [OF that] by (simp add: explode_row_def genre_tokens_def)
  ultimately show ?thesis
    using assms(2) by (simp add: explode_genre_def list_all_iff explode_row_def)
qed

theorem explosion_correct_witness:
  "well_formed listed \<and> ''Genre'' \<in> set (columns listed) \<and>
   rows (explode_genre sample listed) = concat (map (explode_row sample) (rows listed)) \<and>
   rows (explode_genre sample listed) = listed_exploded \<and>
   list_all (\<lambda>r. copies_of sample r (explode_row sample r)) (rows listed) \<and>
   tokens_of (astype_str sample (field row_Y ''Genre'')) [''Action'', ''Comedy'', ''Drama''] \<and>
   explode_row sample row_Y =
     map (\<lambda>t. set_field ''Genre'' (Str t) row_Y) [''Action'', ''Comedy'', ''Drama''] \<and>
   length (explode_row sample row_Y) = 3"
proof -
  have w: "well_formed listed" by code_simp
  have g: "''Genre'' \<in> set (columns listed)" by code_simp
  have e: "rows (explode_genre sample listed) = listed_exploded" by code_simp
  have t: "tokens_of (astype_str sample (field row_Y ''Genre'')) [''Action'', ''Comedy'', ''Drama'']"
    by code_simp
  note c = explosion_correct [OF w g, of sample row_Y "[''Action'', ''Comedy'', ''Drama'']"]
  from c have "list_all (\<lambda>r. copies_of sample r (explode_row sample r)) (rows listed)"
    by (simp add: list_all_iff)
  moreover from c t have "explode_row sample row_Y =
      map (\<lambda>t. set_field ''Genre'' (Str t) row_Y) [''Action'', ''Comedy'', ''Drama''] \<and>
      length (explode_row sample row_Y) = 3"
    by simp
  moreover from c have "rows (explode_genre sample listed) = concat (map (explode_row sample) (rows listed))"
    by simp
  ultimately show ?thesis
    using w g e t by simp
qed

section \<open>Categorization\<close>

lemma to_numeric_id: "(case w of Str s \<Rightarrow> False | _ \<Rightarrow> True) \<Longrightarrow> to_numeric L w = w"
  by (cases w) (simp_all add: to_numeric_def)

lemma map_col_numeric:
  assumes "numeric_col df col"
  shows "map_col col (to_numeric L) df = df"
proof -
  have row: "map (\<lambda>(n, w). if n = col then (n, to_numeric L w) else (n, w)) r = r"
    if "r \<in> set (rows df)" for r
  proof (rule map_idI)
    fix p assume p: "p \<in> set r"
    obtain n w where nw: "p = (n, w)" by (cases p)
    from assms that
    have "list_all (\<lambda>(n, w). n \<noteq> col \<or> (case w of Str s \<Rightarrow> False | _ \<Rightarrow> True)) r"
      by (simp add: numeric_col_def list_all_iff)
    with p nw have "n \<noteq> col \<or> (case w of Str s \<Rightarrow> False | _ \<Rightarrow> True)"
      by (fastforce simp: list_all_iff)
    then show "(case p of (n, w) \<Rightarrow> if n = col then (n, to_numeric L w) else (n, w)) = p"
      unfolding nw by (auto simp: to_numeric_id)
  qed
  have "map (map (\<lambda>(n, w). if n = col then (n, to_numeric L w) else (n, w))) (rows df) = rows df"
    by (rule map_idI) (rule row)
  then show ?thesis by (simp add: map_col_def)
qed

lemma quantile_position: 
  fixes q :: rat
  assumes "0 \<le> q" "q \<le> 1"
  shows "nat \<lfloor>of_nat m * q\<rfloor> \<le> m"
proof -
  have "of_nat m * q \<le> of_nat m * 1"
    using assms by (intro mult_left_mono) simp_all
  then have "\<lfloor>of_nat m * q\<rfloor> \<le> \<lfloor>(of_nat m :: rat)\<rfloor>"
    by (intro floor_mono) simp
  then show ?thesis by simp
qed

lemma quantile_constant:
  assumes "vs \<noteq> []" and "\<And>x. x \<in> set vs \<Longrightarrow> x = v" and "0 \<le> q" "q \<le> 1"
  shows "quantile vs q = v"
proof -
  let ?s = "sort vs"
  have n: "0 < length ?s" using assms(1) by simp
  have at: "?s ! i = v" if "i < length ?s" for i
  proof -
    from that have "?s ! i \<in> set ?s" by (rule nth_mem)
    then show ?thesis using assms(2) by simp
  qed
  have "nat \<lfloor>of_nat (length ?s - 1) * q\<rfloor> \<le> length ?s - 1"
    using assms(3,4) by (rule quantile_position)
  with n have i: "nat \<lfloor>of_nat (length ?s - 1) * q\<rfloor> < length ?s" by linarith
  have j: "min (nat \<lfloor>of_nat (length ?s - 1) * q\<rfloor> + 1) (length ?s - 1) < length ?s"
    using n by linarith
  show ?thesis
    unfolding quantile_def Let_def at [OF i] at [OF j] by simp
qed

lemma quantile_edges_constant:
  assumes "\<And>x. x \<in> set vs \<Longrightarrow> x = v"
  shows "length (remdups (quantile_edges vs)) < 2"
proof (cases "vs = []")
  case True
  then show ?thesis by (simp add: quantile_edges_def)
next
  case False
  have "quantile vs q = v" if "0 \<le> q" "q \<le> 1" for q
    using False assms that by (rule quantile_constant)
  then have "map (quantile vs) [0, 1 / 4, 1 / 2, 3 / 4, 1] = [v, v, v, v, v]"
    by simp
  with False show ?thesis by (simp add: quantile_edges_def)
qed

text \<open>
  Claim C5. When the numbers of a numeric column give fewer than two distinct quantile
  edges, in particular when they are all the same number, \<^verbatim>\<open>categorize_col\<close> returns
  the table as it received it: no error is raised and no category column is added.
\<close>

theorem degenerate_column_skipped:
  assumes "col \<in> set (columns df)" and "numeric_col df col"
    and "length (remdups (quantile_edges (num_values (get_col col df)))) < 2 \<or>
         list_all (\<lambda>x. x = v) (num_values (get_col col df))"
  shows "categorize_col L df col labs = Inr df"
proof -
  have "length (remdups (quantile_edges (num_values (get_col col df)))) < 2"
    using assms(3) by (auto simp: list_all_iff intro: quantile_edges_constant)
  then show ?thesis
    using assms(1) by (simp add: categorize_col_def map_col_numeric [OF assms(2)])
qed

theorem degenerate_column_skipped_witness:
  "''Vote_Average'' \<in> set (columns flat) \<and> numeric_col flat ''Vote_Average'' \<and>
   list_all (\<lambda>x. x = 7) (num_values (get_col ''Vote_Average'' flat)) \<and>
   categorize_col sample flat ''Vote_Average'' labels = Inr flat"
proof -
  have 1: "''Vote_Average'' \<in> set (columns flat)" by code_simp
  have 2: "numeric_col flat ''Vote_Average''" by code_simp
  have 3: "list_all (\<lambda>x. x = 7) (num_values (get_col ''Vote_Average'' flat))" by code_simp
  show ?thesis
    using degenerate_column_skipped [OF 1 2 disjI2, OF 3] 1 2 3 by simp
qed

lemma quantiles_one_to_ten:
  "map (quantile one_to_ten) [0, 1 / 4, 1 / 2, 3 / 4, 1] = [1, 13 / 4, 11 / 2, 31 / 4, 10]"
  by code_simp

lemma edges_one_to_ten:
  "quantile_edges one_to_ten = [Some 1, Some (13 / 4), Some (11 / 2), Some (31 / 4), Some 10]"
  by code_simp

lemma ten_values: "num_values (get_col ''v'' ten) = one_to_ten"
  by code_simp

lemma map_col_ten: "map_col ''v'' (to_numeric L) ten = ten"
  by (rule map_col_numeric) code_simp

lemma cut_one_to_ten:
  "pd_cut [1, 13 / 4, 11 / 2, 31 / 4, 10] abcd (Num x) =
     (if 1 \<le> x \<and> x \<le> 13 / 4 then Str ''a''
      else if 13 / 4 < x \<and> x \<le> 11 / 2 then Str ''b''
      else if 11 / 2 < x \<and> x \<le> 31 / 4 then Str ''c''
      else if 31 / 4 < x \<and> x \<le> 10 then Str ''d''
      else Missing)"
  by (auto simp: pd_cut_def searchsorted_def abcd_def)

lemma categorize_ten: "categorize_col L ten ''v'' abcd = Inr ten_binned"
proof -
  have "assign_col ''v_Category''
          (\<lambda>r. pd_cut [1, 13 / 4, 11 / 2, 31 / 4, 10] abcd (field r ''v'')) ten = ten_binned"
    by code_simp
  moreover have "''v'' \<in> set (columns ten)" by code_simp
  moreover have "take 4 abcd = abcd" "distinct abcd" "length abcd = 4" by code_simp+
  ultimately show ?thesis
    by (simp add: categorize_col_def map_col_ten ten_values edges_one_to_ten)
qed

text \<open>
  Claim C7. For the values 1 to 10 and the labels a, b, c, d the quantiles at 0, 1/4, 1/2,
  3/4 and 1 are the edges 1, 13/4, 11/2, 31/4 and 10. They delimit four buckets that do
  not overlap, the first closed at the lowest edge and each closed on the right, labelled
  a to d in increasing order; the ten values get a, a, a, b, b, c, c, d, d, d. A missing
  value and a value outside all buckets get no category.
\<close>

theorem bucket_edge_policy:
  "map (quantile one_to_ten) [0, 1 / 4, 1 / 2, 3 / 4, 1] = [1, 13 / 4, 11 / 2, 31 / 4, 10] \<and>
   quantile_edges one_to_ten = [Some 1, Some (13 / 4), Some (11 / 2), Some (31 / 4), Some 10] \<and>
   num_values (get_col ''v'' ten) = one_to_ten \<and>
   categorize_col L ten ''v'' abcd = Inr ten_binned \<and>
   pd_cut [1, 13 / 4, 11 / 2, 31 / 4, 10] abcd (Num x) =
     (if 1 \<le> x \<and> x \<le> 13 / 4 then Str ''a''
      else if 13 / 4 < x \<and> x \<le> 11 / 2 then Str ''b''
      else if 11 / 2 < x \<and> x \<le> 31 / 4 then Str ''c''
      else if 31 / 4 < x \<and> x \<le> 10 then Str ''d''
      else Missing) \<and>
   pd_cut [1, 13 / 4, 11 / 2, 31 / 4, 10] abcd Missing = Missing"
  using quantiles_one_to_ten edges_one_to_ten ten_values categorize_ten cut_one_to_ten
  by (simp add: pd_cut_def)

theorem bucket_edge_policy_witness:
  "categorize_col sample ten ''v'' abcd = Inr ten_binned \<and>
   pd_cut [1, 13 / 4, 11 / 2, 31 / 4, 10] abcd (Num 1) = Str ''a'' \<and>
   pd_cut [1, 13 / 4, 11 / 2, 31 / 4, 10] abcd (Num (13 / 4)) = Str ''a'' \<and>
   pd_cut [1, 13 / 4, 11 / 2, 31 / 4, 10] abcd (Num 11) = Missing"
  using bucket_edge_policy [of sample 1] bucket_edge_policy [of sample "13 / 4"]
    bucket_edge_policy [of sample 11]
  by simp

section \<open>Empty genre tokens\<close>

lemma split_genre_trailing: "\<exists>ts. ts \<noteq> [] \<and> split_genre (s @ '', '') = ts @ [[]]"
proof (induction s rule: split_genre.induct)
  case 1
  have "split_genre ([] @ '', '') = [[]] @ [[]]" by simp
  then show ?case by blast
next
  case (2 c)
  have "split_genre ([c] @ '', '') = [[c]] @ [[]]" by simp
  then show ?case by blast
next
  case (3 c d cs)
  show ?case
  proof (cases "c = CHR '','' \<and> d = CHR '' ''")
    case True
    from 3(1) [OF True] obtain ts where ts: "ts \<noteq> []" "split_genre (cs @ '', '') = ts @ [[]]"
      by blast
    from True ts(2) have "split_genre ((c # d # cs) @ '', '') = ([] # ts) @ [[]]" by simp
    then show ?thesis by blast
  next
    case False
    from 3(2) [OF False] obtain ts where ts: "ts \<noteq> []"
      "split_genre ((d # cs) @ '', '') = ts @ [[]]"
      by blast
    from ts(1) obtain t ts' where tt: "ts = t # ts'" by (cases ts) auto
    from False ts(2) have "split_genre ((c # d # cs) @ '', '') = ((c # t) # ts') @ [[]]"
      by (auto simp: tt)
    then show ?thesis by blast
  qed
qed

lemma empty_token_trailing: "[] \<in> set (split_genre (s @ '', ''))"
  using split_genre_trailing [of s] by auto

lemma in_rows_row_elimination:
  "r \<in> set (rows (row_elimination df)) \<longleftrightarrow> r \<in> set (rows df) \<and> Missing \<notin> snd ` set r"
  by (auto simp: rows_row_elimination)

text \<open>
  Claim C10. Rows are eliminated before the genres are split. So a row that is complete
  when it enters row elimination and whose Genre text gives an empty token, as every text
  ending in the delimiter does, leaves the pipeline with a copy whose Genre is the empty
  string; that copy has no missing value, the empty string being a value.
\<close>

theorem empty_genre_token_survives:
  assumes "prepare L df = Inr d" and "''Genre'' \<in> set (columns d)"
    and "r \<in> set (rows d)" and "Missing \<notin> snd ` set r"
    and "field r ''Genre'' = Str g" and "[] \<in> set (split_genre g)"
  shows "eda_pipeline L df = Inr (explode_genre L (row_elimination d)) \<and>
         set_field ''Genre'' (Str []) r \<in> set (rows (explode_genre L (row_elimination d))) \<and>
         Missing \<notin> snd ` set (set_field ''Genre'' (Str []) r) \<and>
         [] \<in> set (split_genre (s @ '', ''))"
proof -
  have r: "r \<in> set (rows (row_elimination d))"
    using assms(3,4) by (simp add: in_rows_row_elimination)
  have "[] \<in> set (genre_tokens L r)"
    using assms(5,6) by (simp add: genre_tokens_def astype_str_def)
  then have "set_field ''Genre'' (Str []) r \<in> set (explode_row L r)"
    by (auto simp: explode_row_def)
  with r assms(2) have "set_field ''Genre'' (Str []) r \<in> set (rows (explode_genre L (row_elimination d)))"
    by (auto simp: explode_genre_def)
  moreover have "Missing \<notin> snd ` set (set_field ''Genre'' (Str []) r)"
    using snd_set_field [of "''Genre''" "Str []" r] assms(4) by auto
  ultimately show ?thesis
    using prepare_eda_pipeline [OF assms(1)] empty_token_trailing by simp
qed

theorem empty_genre_token_survives_witness:
  "prepare sample movies = Inr movies_prepared \<and> ''Genre'' \<in> set (columns movies_prepared) \<and>
   row_Z \<in> set (rows movies_prepared) \<and> Missing \<notin> snd ` set row_Z \<and>
   field row_Z ''Genre'' = Str ''Action, '' \<and> [] \<in> set (split_genre ''Action, '') \<and>
   eda_pipeline sample movies = Inr movies_clean \<and>
   set_field ''Genre'' (Str []) row_Z \<in> set (rows movies_clean)"
proof -
  have 2: "''Genre'' \<in> set (columns movies_prepared)" by code_simp
  have 3: "row_Z \<in> set (rows movies_prepared)" by code_simp
  have 4: "Missing \<notin> snd ` set row_Z" by code_simp
  have 5: "field row_Z ''Genre'' = Str ''Action, ''" by code_simp
  have 6: "[] \<in> set (split_genre ''Action, '')" by code_simp
  note t = empty_genre_token_survives [OF movies_prepare 2 3 4 5 6, where s = "''Action''"]
  from t movies_run have "explode_genre sample (row_elimination movies_prepared) = movies_clean"
    by simp
  with t have "set_field ''Genre'' (Str []) row_Z \<in> set (rows movies_clean)"
    by simp
  then show ?thesis
    using movies_prepare movies_run 2 3 4 5 6 by simp
qed

section \<open>The table of the dashboard\<close>

lemma movies_load: "load_data sample movies = Inr movies_loaded"
  by code_simp

text \<open>
  The claim as stated fails: on the same input the dashboard's loader and the script's
  pipeline give different tables. The loader keeps the pruned columns, the uncoerced
  Vote_Average, the rows with missing values, and derives no category.
\<close>

theorem dashboard_table_counterexample:
  "load_data sample movies = Inr movies_loaded \<and> eda_pipeline sample movies = Inr movies_clean \<and>
   movies_loaded \<noteq> movies_clean"
  by code_simp

lemma length_concat_map_ge:
  "(\<And>x. x \<in> set xs \<Longrightarrow> f x \<noteq> []) \<Longrightarrow> length xs \<le> length (concat (map f xs))"
proof (induction xs)
  case Nil
  show ?case by simp
next
  case (Cons x xs)
  have "f x \<noteq> []" by (rule Cons.prems) simp
  then have "1 \<le> length (f x)" by (cases "f x") simp_all
  moreover have "length xs \<le> length (concat (map f xs))"
    by (rule Cons.IH) (simp add: Cons.prems)
  ultimately show ?case by simp
qed

lemma length_rows_explode_genre: "length (rows df) \<le> length (rows (explode_genre L df))"
  by (simp add: explode_genre_def length_concat_map_ge)

lemma field_map_row:
  "field (map (\<lambda>(n, w). if n = c then (n, f w) else (n, w)) r) c' =
     (if c' = c \<and> c \<in> fst ` set r then f (field r c) else field r c')"
proof (induction r)
  case Nil
  show ?case by (simp add: field_def)
next
  case (Cons p r)
  obtain a b where p: "p = (a, b)" by (cases p)
  show ?case
  proof (cases "a = c'")
    case True
    then show ?thesis by (simp add: p field_def)
  next
    case False
    then have "field (map (\<lambda>(n, w). if n = c then (n, f w) else (n, w)) (p # r)) c' =
               field (map (\<lambda>(n, w). if n = c then (n, f w) else (n, w)) r) c'"
      by (auto simp: p field_def)
    moreover from False have "field (p # r) c' = field r c'"
      by (simp add: p field_def)
    moreover from False have "c' = c \<and> c \<in> fst ` set (p # r) \<longleftrightarrow> c' = c \<and> c \<in> fst ` set r"
      by (auto simp: p)
    ultimately show ?thesis
      using Cons.IH by (auto simp: p field_def)
  qed
qed

lemma get_col_map_col: "c \<noteq> c' \<Longrightarrow> get_col c (map_col c' f df) = get_col c df"
  by (simp add: get_col_def field_map_row)

lemma set_get_col_explode_genre:
  assumes "c \<noteq> ''Genre''"
  shows "set (get_col c (explode_genre L df)) = set (get_col c df)"
proof (cases "''Genre'' \<in> set (columns df)")
  case True
  have same: "field x c = field r c" if "x \<in> set (explode_row L r)" for x r
    using that assms by (auto simp: explode_row_def field_set_field_other)
  have "(\<lambda>x. field x c) ` (\<Union>r \<in> set (rows df). set (explode_row L r))
          = (\<lambda>r. field r c) ` set (rows df)"
  proof (intro set_eqI iffI)
    fix v assume "v \<in> (\<lambda>x. field x c) ` (\<Union>r \<in> set (rows df). set (explode_row L r))"
    then obtain r x where "r \<in> set (rows df)" "x \<in> set (explode_row L r)" "v = field x c"
      by auto
    with same show "v \<in> (\<lambda>r. field r c) ` set (rows df)" by auto
  next
    fix v assume "v \<in> (\<lambda>r. field r c) ` set (rows df)"
    then obtain r where r: "r \<in> set (rows df)" "v = field r c" by auto
    have h: "hd (explode_row L r) \<in> set (explode_row L r)" by simp
    then have "field (hd (explode_row L r)) c = v"
      using same r(2) by simp
    moreover from h r(1) have "hd (explode_row L r) \<in> (\<Union>r \<in> set (rows df). set (explode_row L r))"
      by blast
    ultimately show "v \<in> (\<lambda>x. field x c) ` (\<Union>r \<in> set (rows df). set (explode_row L r))"
      by blast
  qed
  with True show ?thesis
    by (simp add: get_col_def explode_genre_def)
next
  case False
  then show ?thesis by (simp add: explode_genre_def)
qed

lemma map_fst_loaded_row [simp]: "map fst (loaded_row L r) = map fst r"
  by (induction r) (auto simp: loaded_row_def)

lemma loaded_row_map_col:
  "map (\<lambda>(n, w). if n = ''Popularity'' then (n, to_numeric L w) else (n, w))
     (map (\<lambda>(n, w). if n = ''Vote_Count'' then (n, to_numeric L w) else (n, w))
       (map (\<lambda>(n, w). if n = ''Release_Date'' then (n, dt_year L w) else (n, w)) r))
   = loaded_row L r"
  by (induction r) (auto simp: loaded_row_def)

lemma rows_loaded:
  "rows (map_col ''Popularity'' (to_numeric L)
          (map_col ''Vote_Count'' (to_numeric L) (map_col ''Release_Date'' (dt_year L) df)))
   = map (loaded_row L) (rows df)"
  by (auto simp: loaded_row_def)

lemma field_loaded_row:
  "c \<noteq> ''Release_Date'' \<Longrightarrow> c \<noteq> ''Vote_Count'' \<Longrightarrow> c \<noteq> ''Popularity'' \<Longrightarrow>
     field (loaded_row L r) c = field r c"
  unfolding loaded_row_map_col [symmetric] by (simp add: field_map_row del: map_map)

text \<open>
  Claim C8, as amended. The table the dashboard hands to its views is the result of
  \<^verbatim>\<open>load_data\<close>, and that is date normalization, numeric coercion of Vote_Count and
  Popularity, and genre explosion, nothing else. On a table with these three columns it
  returns the same columns (nothing pruned, no category derived) and, for each input row
  in turn, the copies per genre token of that row with its date read as a year and its
  Vote_Count and Popularity read as numbers (without a Genre column, that row itself). So
  no row is eliminated, and Vote_Average holds the raw values.
\<close>

theorem load_data_partial_pipeline:
  assumes "well_formed df"
    and "list_all (\<lambda>c. c \<in> set (columns df)) [''Release_Date'', ''Vote_Count'', ''Popularity'']"
  shows "\<exists>out. load_data L df = Inr out \<and> columns out = columns df \<and>
           rows out =
             (if ''Genre'' \<in> set (columns df)
              then concat (map (\<lambda>r. explode_row L (loaded_row L r)) (rows df))
              else map (loaded_row L) (rows df)) \<and>
           list_all (\<lambda>r. ''Genre'' \<in> set (columns df) \<longrightarrow>
                        copies_of L (loaded_row L r) (explode_row L (loaded_row L r))) (rows df) \<and>
           list_all (\<lambda>r. field (loaded_row L r) ''Vote_Average'' = field r ''Vote_Average'')
             (rows df) \<and>
           length (rows df) \<le> length (rows out) \<and>
           set (get_col ''Vote_Average'' out) = set (get_col ''Vote_Average'' df)"
proof -
  let ?d = "map_col ''Popularity'' (to_numeric L)
             (map_col ''Vote_Count'' (to_numeric L) (map_col ''Release_Date'' (dt_year L) df))"
  have 1: "load_data L df = Inr (explode_genre L ?d)"
    using assms(2) by (simp add: load_data_def coerce_col_def)
  have 2: "columns (explode_genre L ?d) = columns df" by simp
  have r: "rows (explode_genre L ?d) =
             (if ''Genre'' \<in> set (columns df)
              then concat (map (\<lambda>r. explode_row L (loaded_row L r)) (rows df))
              else map (loaded_row L) (rows df))"
    unfolding explode_genre_def by (simp add: rows_loaded comp_def del: rows_map_col)
  have c: "copies_of L (loaded_row L r) (explode_row L (loaded_row L r))"
    if "r \<in> set (rows df)" "''Genre'' \<in> set (columns df)" for r
  proof (rule copies_of_explode_row)
    have "map fst (loaded_row L r) = columns df"
      using wf_rows [OF assms(1) that(1)] by simp
    with that(2) show "''Genre'' \<in> fst ` set (loaded_row L r)"
      by (metis set_map)
  qed
  have v: "field (loaded_row L r) ''Vote_Average'' = field r ''Vote_Average''" for r
    by (rule field_loaded_row) simp_all
  have "length (rows ?d) = length (rows df)" by simp
  with length_rows_explode_genre [of ?d L]
  have 3: "length (rows df) \<le> length (rows (explode_genre L ?d))" by simp
  have "get_col ''Vote_Average'' ?d = get_col ''Vote_Average'' df"
    by (simp add: get_col_map_col)
  then have 4: "set (get_col ''Vote_Average'' (explode_genre L ?d)) = set (get_col ''Vote_Average'' df)"
    by (simp add: set_get_col_explode_genre)
  from c v have 5:
    "list_all (\<lambda>r. ''Genre'' \<in> set (columns df) \<longrightarrow>
                 copies_of L (loaded_row L r) (explode_row L (loaded_row L r))) (rows df)"
    "list_all (\<lambda>r. field (loaded_row L r) ''Vote_Average'' = field r ''Vote_Average'') (rows df)"
    by (simp_all add: list_all_iff)
  from 1 2 r 3 4 5 show ?thesis by blast
qed

theorem load_data_partial_pipeline_witness:
  "well_formed movies \<and>
   list_all (\<lambda>c. c \<in> set (columns movies)) [''Release_Date'', ''Vote_Count'', ''Popularity''] \<and>
   load_data sample movies = Inr movies_loaded \<and> columns movies_loaded = columns movies \<and>
   ''Genre'' \<in> set (columns movies) \<and>
   rows movies_loaded =
     concat (map (\<lambda>r. explode_row sample (loaded_row sample r)) (rows movies)) \<and>
   length (rows movies) \<le> length (rows movies_loaded) \<and>
   set (get_col ''Vote_Average'' movies_loaded) = set (get_col ''Vote_Average'' movies)"
proof -
  have c: "list_all (\<lambda>c. c \<in> set (columns movies)) [''Release_Date'', ''Vote_Count'', ''Popularity'']"
    by code_simp
  have g: "''Genre'' \<in> set (columns movies)" by code_simp
  from load_data_partial_pipeline [OF wf_movies c, of sample] movies_load c g wf_movies
  show ?thesis by auto
qed

end
